theory Spec2Isabelle
  imports Main "HOL-Library.Word"
begin

section \<open>The contact registry (registry/registry.go, registry/memory.go)\<close>

subsection \<open>Data\<close>

text \<open>
  Modelled from the spec: the type \<open>sip.Uri\<close> is not among the sources. The registry
  reads two things from it: \<open>User()\<close>, the user part that \<open>findInstances\<close> compares
  with \<open>==\<close>, and \<open>Equals\<close>, which the spec calls full-URI equality. A URI is kept
  here as its user part and its domain; \<open>Equals\<close> compares both.
\<close>

datatype uri = Uri (User: string) (Host: string)

definition Equals :: "uri \<Rightarrow> uri \<Rightarrow> bool" where
  "Equals key aor \<longleftrightarrow> key = aor"

definition uri_String :: "uri \<Rightarrow> string" where
  "uri_String u = ''sip:'' @ User u @ ''@'' @ Host u"

text \<open>
  \<open>ContactInstance\<close> of registry.go. The contact header is a pointer in the source and
  may be nil; the two counters are \<open>uint32\<close>.
\<close>

record ContactInstance =
  Contact :: "string option"
  RegExpires :: "32 word"
  LastUpdated :: "32 word"
  Source :: string
  UserAgent :: string
  Transport :: string

text \<open>
  The field \<open>aors\<close> of \<open>MemoryRegistry\<close> is a Go map from AOR to a map from source
  address to contact instance. Every inner map is made by \<open>AddAor\<close> for one key only, so
  an inner map is identified by the key it is stored under, and a write through the
  pointer \<open>findInstances\<close> returns is a write to the entry of that key.
\<close>

type_synonym instances = "string \<rightharpoonup> ContactInstance"
type_synonym aor_map = "uri \<rightharpoonup> instances"

datatype error = NotFound uri | IndexOutOfRange | NilDereference | InviteFailed

text \<open>
  A \<open>range\<close> over a Go map visits every key once, in an order the language leaves
  open and that may differ from one loop to the next. Each loop of the source therefore
  takes the order of its visit as an argument; \<open>range_keys m ks\<close> says that \<open>ks\<close> is
  such an order for the map \<open>m\<close>.
\<close>

definition range_keys :: "('k \<rightharpoonup> 'v) \<Rightarrow> 'k list \<Rightarrow> bool" where
  "range_keys m ks \<longleftrightarrow> distinct ks \<and> set ks = dom m"

subsection \<open>Operations\<close>

text \<open>\<open>findInstances\<close>: the first visited entry whose key has the user part of \<open>aor\<close>.\<close>

fun findInstances :: "aor_map \<Rightarrow> uri list \<Rightarrow> uri \<Rightarrow> error + (uri \<times> instances)" where
  "findInstances aors [] aor = Inl (NotFound aor)"
| "findInstances aors (key # ks) aor =
     (case aors key of
        None \<Rightarrow> findInstances aors ks aor
      | Some instances \<Rightarrow>
          if User key = User aor then Inr (key, instances)
          else findInstances aors ks aor)"

text \<open>
  The operations return the pair of the Go return value and the registry after the call.
  \<open>AddAor\<close> always returns the nil error.
\<close>

definition AddAor :: "uri list \<Rightarrow> uri \<Rightarrow> ContactInstance \<Rightarrow> aor_map \<Rightarrow> error option \<times> aor_map" where
  "AddAor ks aor instance aors =
     (case findInstances aors ks aor of
        Inr (key, instances) \<Rightarrow> (None, aors(key \<mapsto> instances(Source instance \<mapsto> instance)))
      | Inl _ \<Rightarrow> (None, aors(aor \<mapsto> [Source instance \<mapsto> instance])))"

text \<open>
  The loop \<open>for key := range mr.aors { if key.Equals(aor) { delete(mr.aors, key); break } }\<close>,
  which \<open>RemoveAor\<close> and \<open>RemoveContact\<close> both contain.
\<close>

fun delete_equal :: "uri list \<Rightarrow> uri \<Rightarrow> aor_map \<Rightarrow> aor_map" where
  "delete_equal [] aor aors = aors"
| "delete_equal (key # ks) aor aors =
     (if key \<in> dom aors \<and> Equals key aor then aors(key := None)
      else delete_equal ks aor aors)"

definition RemoveAor :: "uri list \<Rightarrow> uri \<Rightarrow> aor_map \<Rightarrow> error option \<times> aor_map" where
  "RemoveAor ks aor aors = (None, delete_equal ks aor aors)"

text \<open>
  \<open>AorIsRegistered\<close> indexes the map with the given AOR itself. The key of the Go map
  is an interface value that holds a pointer, so that lookup goes by the identity of
  the URI object, which keys kept by value do not have; the operation is left out. The
  other operations reach an entry only through the two loops above and through keys the
  loops have produced, and \<open>AddAor\<close> makes a key only when no key has its user part,
  so for them keys by value behave as the keys of the source do.
\<close>

definition UpdateContact :: "uri list \<Rightarrow> uri \<Rightarrow> ContactInstance \<Rightarrow> aor_map \<Rightarrow> error option \<times> aor_map" where
  "UpdateContact ks aor instance aors =
     (case findInstances aors ks aor of
        Inl err \<Rightarrow> (Some err, aors)
      | Inr (key, instances) \<Rightarrow> (None, aors(key \<mapsto> instances(Source instance \<mapsto> instance))))"

text \<open>
  \<open>RemoveContact\<close> runs two loops over the registry: the lookup by user part (order
  \<open>ks\<close>) and, when the instance map found has become empty, the deletion of the key
  that \<open>Equals\<close> the given AOR (order \<open>ks'\<close>).
\<close>

definition RemoveContact :: "uri list \<Rightarrow> uri list \<Rightarrow> uri \<Rightarrow> ContactInstance \<Rightarrow> aor_map \<Rightarrow> error option \<times> aor_map" where
  "RemoveContact ks ks' aor instance aors =
     (case findInstances aors ks aor of
        Inr (key, instances) \<Rightarrow>
          (let instances' = instances(Source instance := None);
               aors' = aors(key \<mapsto> instances')
           in if dom instances' = {} then (None, delete_equal ks' aor aors')
              else (None, aors'))
      | Inl err \<Rightarrow> (Some err, aors))"

text \<open>
  \<open>HandleConnectionError\<close>. The inner loop visits the sources of one entry and deletes
  the one equal to the lost connection's source; the outer loop visits the entries and,
  at the first entry whose instance map is empty after the inner loop, deletes the entry
  and leaves the loop. An outer order gives, with every key, the order of the inner visit.
\<close>

record ConnectionError =
  ce_Source :: string
  ce_Dest :: string
  ce_Net :: string

fun scan_sources :: "string list \<Rightarrow> string \<Rightarrow> instances \<Rightarrow> bool \<Rightarrow> instances \<times> bool" where
  "scan_sources [] lost cis result = (cis, result)"
| "scan_sources (source # rest) lost cis result =
     (if source \<in> dom cis \<and> source = lost then (cis(source := None), True)
      else scan_sources rest lost cis result)"

fun scan_aors :: "(uri \<times> string list) list \<Rightarrow> string \<Rightarrow> aor_map \<Rightarrow> bool \<Rightarrow> bool \<times> aor_map" where
  "scan_aors [] lost aors result = (result, aors)"
| "scan_aors ((aor, srcs) # rest) lost aors result =
     (case aors aor of
        None \<Rightarrow> scan_aors rest lost aors result
      | Some cis \<Rightarrow>
          (case scan_sources srcs lost cis result of
             (cis', result') \<Rightarrow>
               if dom cis' = {} then (result', aors(aor := None))
               else scan_aors rest lost (aors(aor \<mapsto> cis')) result'))"

definition HandleConnectionError :: "(uri \<times> string list) list \<Rightarrow> ConnectionError \<Rightarrow> aor_map \<Rightarrow> bool \<times> aor_map" where
  "HandleConnectionError view connError aors = scan_aors view (ce_Source connError) aors False"

definition range_view :: "aor_map \<Rightarrow> (uri \<times> string list) list \<Rightarrow> bool" where
  "range_view aors view \<longleftrightarrow>
     range_keys aors (map fst view) \<and>
     list_all (\<lambda>(aor, srcs). case aors aor of None \<Rightarrow> False | Some cis \<Rightarrow> range_keys cis srcs) view"

definition GetContacts :: "uri list \<Rightarrow> uri \<Rightarrow> aor_map \<Rightarrow> instances option \<times> bool" where
  "GetContacts ks aor aors =
     (case findInstances aors ks aor of
        Inl err \<Rightarrow> (None, False)
      | Inr (key, instances) \<Rightarrow> (Some instances, True))"

definition GetAllContacts :: "aor_map \<Rightarrow> aor_map" where
  "GetAllContacts aors = aors"

text \<open>
  The registry states that the five mutating operations produce from the empty
  registry of \<open>NewMemoryRegistry\<close>, under every order of every loop.
\<close>

inductive reachable :: "aor_map \<Rightarrow> bool" where
  r_new: "reachable Map.empty"
| r_AddAor: "reachable aors \<Longrightarrow> range_keys aors ks \<Longrightarrow> reachable (snd (AddAor ks aor instance aors))"
| r_RemoveAor: "reachable aors \<Longrightarrow> range_keys aors ks \<Longrightarrow> reachable (snd (RemoveAor ks aor aors))"
| r_UpdateContact: "reachable aors \<Longrightarrow> range_keys aors ks \<Longrightarrow>
     reachable (snd (UpdateContact ks aor instance aors))"
| r_RemoveContact: "reachable aors \<Longrightarrow> range_keys aors ks \<Longrightarrow> range_keys aors ks' \<Longrightarrow>
     reachable (snd (RemoveContact ks ks' aor instance aors))"
| r_HandleConnectionError: "reachable aors \<Longrightarrow> range_view aors view \<Longrightarrow>
     reachable (snd (HandleConnectionError view connError aors))"

section \<open>The call bridge engine and the handlers (b2bua/b2bua.go)\<close>

subsection \<open>Data\<close>

text \<open>
  Modelled from the spec: the packages \<open>session\<close>, \<open>ua\<close> and \<open>account\<close> are not among
  the sources. A session is an opaque handle that the engine compares by identity; a
  session description is a string. What the engine asks of a session or of the user
  agent is written to a list of actions, in the order of the calls. What the engine
  reads back (the remote description and the direction of a session, the outcome of
  each \<open>ua.Invite\<close>) comes from an environment; \<open>Invite_result env n\<close> is the outcome of
  the call number \<open>n\<close> to \<open>ua.Invite\<close> within one run of the handler.
\<close>

type_synonym Session = nat

datatype Direction = Incoming | Outgoing

datatype Status =
    InviteReceived | ReInviteReceived | EarlyMedia | Provisional | Confirmed
  | Failure | Canceled | Terminated | OtherStatus

record Profile =
  profile_URI :: uri
  profile_DisplayName :: string

datatype action =
    SessProvisional Session nat string
  | SessReject Session nat string
  | SessAccept Session nat
  | SessProvideAnswer Session string
  | SessEnd Session
  | UaInvite Profile uri string string

record env =
  RemoteSdp :: "Session \<Rightarrow> string"
  Direction_of :: "Session \<Rightarrow> Direction"
  Invite_result :: "nat \<Rightarrow> error + Session"

record B2BCall =
  src :: Session
  dest :: Session

text \<open>The fields of \<open>B2BUA\<close> that the handlers read or write.\<close>

record B2BUA =
  registry :: aor_map
  calls :: "B2BCall list"

text \<open>
  What the INVITE handler reads from the request: the addresses of the To and From
  headers and the display name of From. The handler takes both headers without testing
  the flag that says whether they are present; a request here carries both, as the
  session handed over with it was set up from them. The response gives the status code
  and the reason phrase.
\<close>

record InviteRequest =
  From_Address :: uri
  From_DisplayName :: "string option"
  To_Address :: uri

record Response =
  StatusCode :: nat
  Reason :: string

subsection \<open>The active-call list\<close>

fun findCall :: "B2BCall list \<Rightarrow> Session \<Rightarrow> B2BCall option" where
  "findCall [] sess = None"
| "findCall (call # rest) sess =
     (if src call = sess \<or> dest call = sess then Some call else findCall rest sess)"

text \<open>\<open>removeCall\<close> cuts the first call that has the session as a leg out of the list.\<close>

fun removeCall :: "B2BCall list \<Rightarrow> Session \<Rightarrow> B2BCall list" where
  "removeCall [] sess = []"
| "removeCall (call # rest) sess =
     (if src call = sess \<or> dest call = sess then rest else call # removeCall rest sess)"

subsection \<open>The INVITE state handler\<close>

text \<open>
  The closure \<open>doInvite\<close>. Its state is the call list, the actions so far and the
  number of calls to \<open>ua.Invite\<close> so far. A failed \<open>ua.Invite\<close> is logged and the
  contact is skipped. The recipient is the string handed to \<open>parser.ParseSipUri\<close>.
\<close>

definition doInvite :: "env \<Rightarrow> Session \<Rightarrow> InviteRequest \<Rightarrow> ContactInstance \<Rightarrow>
    B2BCall list \<times> action list \<times> nat \<Rightarrow> B2BCall list \<times> action list \<times> nat" where
  "doInvite e sess req instance st =
     (case st of (cs, acts, n) \<Rightarrow>
        (let caller = From_Address req;
             called = To_Address req;
             displayName = (case From_DisplayName req of None \<Rightarrow> [] | Some d \<Rightarrow> d);
             profile = \<lparr>profile_URI = caller, profile_DisplayName = displayName\<rparr>;
             recipient = ''sip:'' @ User called @ ''@'' @ Source instance @
                         '';transport='' @ Transport instance;
             offer = RemoteSdp e sess;
             acts' = acts @ [UaInvite profile called recipient offer]
         in case Invite_result e n of
              Inl err \<Rightarrow> (cs, acts', Suc n)
            | Inr d \<Rightarrow> (cs @ [\<lparr>src = sess, dest = d\<rparr>], acts', Suc n)))"

text \<open>The loop \<open>for _, instance := range *contacts { doInvite(instance) }\<close>.\<close>

fun invite_each :: "env \<Rightarrow> Session \<Rightarrow> InviteRequest \<Rightarrow> instances \<Rightarrow> string list \<Rightarrow>
    B2BCall list \<times> action list \<times> nat \<Rightarrow> B2BCall list \<times> action list \<times> nat" where
  "invite_each e sess req contacts [] st = st"
| "invite_each e sess req contacts (source # rest) st =
     (case contacts source of
        None \<Rightarrow> invite_each e sess req contacts rest st
      | Some instance \<Rightarrow> invite_each e sess req contacts rest (doInvite e sess req instance st))"

text \<open>The case \<open>EarlyMedia, Provisional\<close>.\<close>

definition on_provisional :: "env \<Rightarrow> B2BUA \<Rightarrow> Session \<Rightarrow> Response option \<Rightarrow> error + (B2BUA \<times> action list)" where
  "on_provisional e b sess resp =
     (case findCall (calls b) sess of
        None \<Rightarrow> Inr (b, [])
      | Some call \<Rightarrow>
          if dest call = sess then
            (case resp of
               None \<Rightarrow> Inl NilDereference
             | Some r \<Rightarrow> Inr (b, [SessProvideAnswer (src call) (RemoteSdp e (dest call)),
                                 SessProvisional (src call) (StatusCode r) (Reason r)]))
          else Inr (b, []))"

text \<open>The case \<open>Failure, Canceled, Terminated\<close>.\<close>

definition on_terminal :: "B2BUA \<Rightarrow> Session \<Rightarrow> error + (B2BUA \<times> action list)" where
  "on_terminal b sess =
     (let acts = (case findCall (calls b) sess of
                    None \<Rightarrow> []
                  | Some call \<Rightarrow>
                      if src call = sess then [SessEnd (dest call)]
                      else if dest call = sess then [SessEnd (src call)]
                      else [])
      in Inr (b\<lparr>calls := removeCall (calls b) sess\<rparr>, acts))"

text \<open>
  The handler takes the order \<open>ks\<close> of the lookup in the registry and the order \<open>srcs\<close>
  of the loop over the contacts found. It returns the engine after the event and the
  actions taken, or the panic of a nil pointer it dereferences.
\<close>

definition InviteStateHandler :: "env \<Rightarrow> uri list \<Rightarrow> string list \<Rightarrow> B2BUA \<Rightarrow> Session \<Rightarrow>
    InviteRequest option \<Rightarrow> Response option \<Rightarrow> Status \<Rightarrow> error + (B2BUA \<times> action list)" where
  "InviteStateHandler e ks srcs b sess req resp state =
     (case state of
        InviteReceived \<Rightarrow>
          (case req of
             None \<Rightarrow> Inl NilDereference
           | Some r \<Rightarrow>
               (let called = To_Address r
                in case GetContacts ks called (registry b) of
                     (contacts, found) \<Rightarrow>
                       if found then
                         (case contacts of
                            None \<Rightarrow> Inl NilDereference
                          | Some cts \<Rightarrow>
                              (case invite_each e sess r cts srcs
                                      (calls b, [SessProvisional sess 100 ''Trying''], 0) of
                                 (cs, acts, n) \<Rightarrow> Inr (b\<lparr>calls := cs\<rparr>, acts)))
                       else Inr (b, [SessReject sess 404 (uri_String called @ '' Not found'')])))
      | ReInviteReceived \<Rightarrow>
          (case Direction_of e sess of
             Incoming \<Rightarrow> Inr (b, [SessAccept sess 200])
           | Outgoing \<Rightarrow> Inr (b, []))
      | EarlyMedia \<Rightarrow> on_provisional e b sess resp
      | Provisional \<Rightarrow> on_provisional e b sess resp
      | Confirmed \<Rightarrow>
          (case findCall (calls b) sess of
             None \<Rightarrow> Inr (b, [])
           | Some call \<Rightarrow>
               if dest call = sess then
                 Inr (b, [SessProvideAnswer (src call) (RemoteSdp e (dest call)),
                          SessAccept (src call) 200])
               else Inr (b, []))
      | Failure \<Rightarrow> on_terminal b sess
      | Canceled \<Rightarrow> on_terminal b sess
      | Terminated \<Rightarrow> on_terminal b sess
      | OtherStatus \<Rightarrow> Inr (b, []))"

subsection \<open>The REGISTER handler and the connection-error handler\<close>

text \<open>
  What the REGISTER handler reads from the request: the address of the To header (taken
  as present, as for INVITE), the list of Expires headers and the list of User-Agent
  headers (either may be empty), the contact header, the source address and the
  transport.
\<close>

record RegisterRequest =
  reg_To :: uri
  reg_Expires :: "32 word list"
  reg_UserAgent :: "string list"
  reg_Contact :: "string option"
  reg_Source :: string
  reg_Transport :: string

text \<open>
  \<open>NewContactInstanceForRequest\<close> of registry.go. The Expires headers are read after a
  test of the length of the list; the User-Agent headers are indexed at 0 without one,
  which panics on the empty list. The contact header is copied as it is, a missing one
  as nil; \<open>LastUpdated\<close> is not set and keeps the zero value.
\<close>

definition NewContactInstanceForRequest :: "RegisterRequest \<Rightarrow> error + ContactInstance" where
  "NewContactInstanceForRequest request =
     (let expiresHeaders = reg_Expires request;
          expires = (case expiresHeaders of [] \<Rightarrow> 0 | h # _ \<Rightarrow> h)
      in case reg_UserAgent request of
           [] \<Rightarrow> Inl IndexOutOfRange
         | userAgentHeader # _ \<Rightarrow>
             Inr \<lparr>Contact = reg_Contact request, RegExpires = expires, LastUpdated = 0,
                  Source = reg_Source request, UserAgent = userAgentHeader,
                  Transport = reg_Transport request\<rparr>)"

text \<open>
  The response of \<open>handleRegister\<close>: status, reason and the Expires headers copied from
  the request. The contact header that \<open>utils.BuildContactHeader\<close> adds is left out.
\<close>

record RegisterResponse =
  resp_Status :: nat
  resp_Reason :: string
  resp_Expires :: "32 word list"

definition handleRegister :: "uri list \<Rightarrow> uri list \<Rightarrow> B2BUA \<Rightarrow> RegisterRequest \<Rightarrow>
    error + (B2BUA \<times> RegisterResponse)" where
  "handleRegister ks ks' b request =
     (let headers = reg_Expires request;
          aor = reg_To request;
          expires = (case headers of [] \<Rightarrow> 0 | h # _ \<Rightarrow> h)
      in if length headers > 0 \<and> expires \<noteq> 0 then
           (case NewContactInstanceForRequest request of
              Inl err \<Rightarrow> Inl err
            | Inr instance \<Rightarrow>
                Inr (b\<lparr>registry := snd (AddAor ks aor instance (registry b))\<rparr>,
                     \<lparr>resp_Status = 200, resp_Reason = ''Registered'', resp_Expires = headers\<rparr>))
         else
           (case NewContactInstanceForRequest request of
              Inl err \<Rightarrow> Inl err
            | Inr instance \<Rightarrow>
                Inr (b\<lparr>registry := snd (RemoveContact ks ks' aor instance (registry b))\<rparr>,
                     \<lparr>resp_Status = 200, resp_Reason = ''UnRegistered'', resp_Expires = headers\<rparr>)))"

definition handleConnectionError :: "(uri \<times> string list) list \<Rightarrow> B2BUA \<Rightarrow> ConnectionError \<Rightarrow> B2BUA" where
  "handleConnectionError view b connError =
     b\<lparr>registry := snd (HandleConnectionError view connError (registry b))\<rparr>"

section \<open>Properties\<close>

subsection \<open>Auxiliary definitions\<close>

text \<open>No two keys of the registry have the same user part.\<close>

definition unique_users :: "aor_map \<Rightarrow> bool" where
  "unique_users aors \<longleftrightarrow> inj_on User (dom aors)"

text \<open>Concrete values for the examples below.\<close>

definition ex_instance :: "string \<Rightarrow> ContactInstance" where
  "ex_instance source =
     \<lparr>Contact = None, RegExpires = 3600, LastUpdated = 0, Source = source,
      UserAgent = ''phone'', Transport = ''udp''\<rparr>"

definition ex_two_aors :: aor_map where
  "ex_two_aors =
     snd (AddAor [Uri ''100'' ''x''] (Uri ''200'' ''x'') (ex_instance ''A'')
       (snd (AddAor [] (Uri ''100'' ''x'') (ex_instance ''A'') Map.empty)))"

definition ex_lost :: ConnectionError where
  "ex_lost = \<lparr>ce_Source = ''A'', ce_Dest = ''0.0.0.0:5060'', ce_Net = ''tcp''\<rparr>"

definition ex_env :: env where
  "ex_env =
     \<lparr>RemoteSdp = (\<lambda>s. if s = 2 then ''sdp2'' else if s = 3 then ''sdp3'' else ''sdp''),
      Direction_of = (\<lambda>s. if s = 1 then Incoming else Outgoing),
      Invite_result = (\<lambda>n. if n = 0 then Inr 2 else Inr 3)\<rparr>"

definition ex_invite :: InviteRequest where
  "ex_invite =
     \<lparr>From_Address = Uri ''100'' ''x'', From_DisplayName = None,
      To_Address = Uri ''200'' ''x''\<rparr>"

definition ex_idle :: B2BUA where
  "ex_idle =
     \<lparr>registry = [Uri ''200'' ''x'' \<mapsto> [''A'' \<mapsto> ex_instance ''A'', ''B'' \<mapsto> ex_instance ''B'']],
      calls = []\<rparr>"

definition ex_forked :: B2BUA where
  "ex_forked =
     \<lparr>registry = [Uri ''200'' ''x'' \<mapsto> [''A'' \<mapsto> ex_instance ''A'', ''B'' \<mapsto> ex_instance ''B'']],
      calls = [\<lparr>src = 1, dest = 2\<rparr>, \<lparr>src = 1, dest = 3\<rparr>]\<rparr>"

subsection \<open>The lookup by user part\<close>

lemma findInstances_Inr:
  "findInstances aors ks aor = Inr (key, inst) \<Longrightarrow>
     aors key = Some inst \<and> User key = User aor \<and> key \<in> set ks"
  by (induction ks) (auto split: option.splits if_splits)

lemma findInstances_Inl:
  "findInstances aors ks aor = Inl e \<Longrightarrow>
     e = NotFound aor \<and> (\<forall>k\<in>set ks. k \<in> dom aors \<longrightarrow> User k \<noteq> User aor)"
  by (induction ks) (auto split: option.splits if_splits)

lemma findInstances_find:
  "set ks \<subseteq> dom aors \<Longrightarrow>
   findInstances aors ks aor =
     (case find (\<lambda>key. User key = User aor) ks of
        None \<Rightarrow> Inl (NotFound aor)
      | Some key \<Rightarrow> Inr (key, the (aors key)))"
  by (induction ks) (auto split: option.splits)

lemma findInstances_unique:
  assumes "unique_users aors" "set ks = dom aors" "aors key = Some inst" "User aor = User key"
  shows "findInstances aors ks aor = Inr (key, inst)"
proof (cases "findInstances aors ks aor")
  case (Inl e)
  from findInstances_Inl[OF Inl] assms show ?thesis by auto
next
  case (Inr p)
  obtain k i where p: "p = (k, i)" by (cases p)
  from findInstances_Inr[of aors ks aor k i] Inr p
  have "aors k = Some i" "User k = User aor" by auto
  with assms have "k = key" unfolding unique_users_def inj_on_def by (metis domI)
  with \<open>aors k = Some i\<close> assms Inr p show ?thesis by simp
qed

subsection \<open>The keys of the registry after each operation\<close>

lemma dom_delete_equal: "dom (delete_equal ks aor aors) \<subseteq> dom aors"
  by (induction ks) auto

lemma dom_scan_aors: "dom (snd (scan_aors view lost aors result)) \<subseteq> dom aors"
proof (induction view lost aors result rule: scan_aors.induct)
  case (1 lost aors result)
  then show ?case by simp
next
  case (2 aor srcs rest lost aors result)
  show ?case
  proof (cases "aors aor")
    case None
    with 2 show ?thesis by simp
  next
    case (Some cis)
    obtain cis' result' where sc: "scan_sources srcs lost cis result = (cis', result')"
      by (cases "scan_sources srcs lost cis result")
    show ?thesis
    proof (cases "dom cis' = {}")
      case True
      with Some sc show ?thesis by (auto split: if_splits)
    next
      case False
      have "dom (aors(aor \<mapsto> cis')) = dom aors" using Some by auto
      with 2(2)[OF Some sc[symmetric] False]
      have "dom (snd (scan_aors rest lost (aors(aor \<mapsto> cis')) result')) \<subseteq> dom aors"
        by (rule ord_le_eq_trans)
      moreover have "scan_aors ((aor, srcs) # rest) lost aors result =
          scan_aors rest lost (aors(aor \<mapsto> cis')) result'"
        using Some sc False by simp
      ultimately show ?thesis by (simp only:)
    qed
  qed
qed

lemma dom_UpdateContact: "dom (snd (UpdateContact ks aor instance aors)) \<subseteq> dom aors"
  by (auto simp: UpdateContact_def split: sum.splits dest: findInstances_Inr)

lemma dom_RemoveContact: "dom (snd (RemoveContact ks ks' aor instance aors)) \<subseteq> dom aors"
proof (cases "findInstances aors ks aor")
  case (Inl e)
  then show ?thesis by (simp add: RemoveContact_def)
next
  case (Inr p)
  obtain k i where p: "p = (k, i)" by (cases p)
  from findInstances_Inr[of aors ks aor k i] Inr p have k: "k \<in> dom aors" by auto
  let ?a = "aors(k \<mapsto> i(Source instance := None))"
  have "dom ?a = dom aors" using k by auto
  moreover have "dom (delete_equal ks' aor ?a) \<subseteq> dom ?a" by (rule dom_delete_equal)
  ultimately have "dom (delete_equal ks' aor ?a) \<subseteq> dom aors" "dom ?a \<subseteq> dom aors"
    by simp_all
  moreover have "snd (RemoveContact ks ks' aor instance aors) = ?a \<or>
      snd (RemoveContact ks ks' aor instance aors) = delete_equal ks' aor ?a"
    using Inr p by (simp add: RemoveContact_def Let_def)
  ultimately show ?thesis by metis
qed

subsection \<open>User parts stay unique\<close>

text \<open>
  \<open>AddAor\<close> makes a new key only when no key has the user part of the new one, and no
  other operation makes a key. So the keys of every reachable registry have pairwise
  different user parts, and the lookup by user part does not depend on the order of
  the visit.
\<close>

lemma unique_users_subset:
  "unique_users aors \<Longrightarrow> dom aors' \<subseteq> dom aors \<Longrightarrow> unique_users aors'"
  unfolding unique_users_def by (rule inj_on_subset)

lemma unique_users_AddAor:
  assumes "unique_users aors" "range_keys aors ks"
  shows "unique_users (snd (AddAor ks aor instance aors))"
proof (cases "findInstances aors ks aor")
  case (Inl e)
  from findInstances_Inl[OF Inl] assms(2)
  have "\<forall>k\<in>dom aors. User k \<noteq> User aor" by (auto simp: range_keys_def)
  with assms(1) Inl show ?thesis
    by (auto simp: AddAor_def unique_users_def inj_on_def)
next
  case (Inr p)
  obtain k i where p: "p = (k, i)" by (cases p)
  from findInstances_Inr[of aors ks aor k i] Inr p have "k \<in> dom aors" by auto
  then have "dom (aors(k \<mapsto> i(Source instance \<mapsto> instance))) = dom aors" by auto
  with assms(1) Inr p show ?thesis by (simp add: AddAor_def unique_users_def)
qed

lemma reachable_unique_users: "reachable aors \<Longrightarrow> unique_users aors"
proof (induction rule: reachable.induct)
  case r_new
  show ?case by (simp add: unique_users_def)
next
  case (r_AddAor aors ks aor inst)
  then show ?case by (simp add: unique_users_AddAor)
next
  case (r_RemoveAor aors ks aor)
  then show ?case
    using unique_users_subset[OF _ dom_delete_equal] by (simp add: RemoveAor_def)
next
  case (r_UpdateContact aors ks aor inst)
  then show ?case using unique_users_subset[OF _ dom_UpdateContact] by blast
next
  case (r_RemoveContact aors ks ks' aor inst)
  then show ?case using unique_users_subset[OF _ dom_RemoveContact] by blast
next
  case (r_HandleConnectionError aors view connError)
  then show ?case
    using unique_users_subset[OF _ dom_scan_aors] by (simp add: HandleConnectionError_def)
qed

subsection \<open>A registry with an entry that has no instance\<close>

text \<open>
  Registering \<open>sip:100@a\<close> from source \<open>A\<close> and then unregistering \<open>sip:100@b\<close> from
  the same source: \<open>RemoveContact\<close> finds the entry of \<open>sip:100@a\<close> by the user part
  and empties it, and its deletion loop, which compares with \<open>Equals\<close>, finds no key
  equal to \<open>sip:100@b\<close>.
\<close>

lemma reachable_empty_entry: "reachable [Uri ''100'' ''a'' \<mapsto> Map.empty]"
proof -
  let ?s1 = "snd (AddAor [] (Uri ''100'' ''a'') (ex_instance ''A'') Map.empty)"
  have r1: "reachable ?s1"
    by (rule r_AddAor[OF r_new]) (simp add: range_keys_def)
  have s1: "?s1 = [Uri ''100'' ''a'' \<mapsto> [''A'' \<mapsto> ex_instance ''A'']]"
    by (simp add: AddAor_def ex_instance_def)
  have k: "range_keys ?s1 [Uri ''100'' ''a'']"
    by (simp add: s1 range_keys_def)
  have "reachable (snd (RemoveContact [Uri ''100'' ''a''] [Uri ''100'' ''a''] (Uri ''100'' ''b'')
           (ex_instance ''A'') ?s1))"
    by (rule r_RemoveContact[OF r1 k k])
  moreover have "snd (RemoveContact [Uri ''100'' ''a''] [Uri ''100'' ''a''] (Uri ''100'' ''b'')
           (ex_instance ''A'') ?s1) = [Uri ''100'' ''a'' \<mapsto> Map.empty]"
    unfolding s1 by (simp add: RemoveContact_def Equals_def ex_instance_def)
  ultimately show ?thesis by simp
qed

lemma ex_two_aors_eq:
  "ex_two_aors =
     [Uri ''100'' ''x'' \<mapsto> [''A'' \<mapsto> ex_instance ''A''],
      Uri ''200'' ''x'' \<mapsto> [''A'' \<mapsto> ex_instance ''A'']]"
  by (simp add: ex_two_aors_def AddAor_def ex_instance_def)

subsection \<open>The active-call list\<close>

lemma findCall_None:
  "findCall cs sess = None \<longleftrightarrow> (\<forall>c\<in>set cs. src c \<noteq> sess \<and> dest c \<noteq> sess)"
  by (induction cs) auto

lemma findCall_Some:
  "findCall cs sess = Some c \<Longrightarrow> c \<in> set cs \<and> (src c = sess \<or> dest c = sess)"
  by (induction cs) (auto split: if_splits)

lemma removeCall_None: "findCall cs sess = None \<Longrightarrow> removeCall cs sess = cs"
  by (induction cs) (auto split: if_splits)

lemma removeCall_Some: "findCall cs sess = Some c \<Longrightarrow> removeCall cs sess = remove1 c cs"
  by (induction cs) (auto split: if_splits dest: findCall_Some)

lemma findCall_append:
  "\<forall>c\<in>set pre. src c \<noteq> sess \<and> dest c \<noteq> sess \<Longrightarrow>
     findCall (pre @ cs) sess = findCall cs sess"
  by (induction pre) auto

lemma removeCall_append:
  "\<forall>c\<in>set pre. src c \<noteq> sess \<and> dest c \<noteq> sess \<Longrightarrow>
     removeCall (pre @ cs) sess = pre @ removeCall cs sess"
  by (induction pre) auto

lemma on_terminal_eq:
  "on_terminal b sess =
     (case findCall (calls b) sess of
        None \<Rightarrow> Inr (b, [])
      | Some call \<Rightarrow> Inr (b\<lparr>calls := remove1 call (calls b)\<rparr>,
                          [SessEnd (if src call = sess then dest call else src call)]))"
proof (cases "findCall (calls b) sess")
  case None
  then show ?thesis by (simp add: on_terminal_def removeCall_None)
next
  case (Some c)
  from findCall_Some[OF Some] Some show ?thesis
    by (auto simp: on_terminal_def removeCall_Some)
qed

lemma confirmed_dest:
  assumes "findCall (calls b) d = Some \<lparr>src = a, dest = d\<rparr>"
  shows "InviteStateHandler e ks srcs b d req resp Confirmed =
           Inr (b, [SessProvideAnswer a (RemoteSdp e d), SessAccept a 200])"
  using assms by (simp add: InviteStateHandler_def)

lemma confirmed_no_dest:
  assumes "\<forall>c\<in>set (calls b). dest c \<noteq> d"
  shows "InviteStateHandler e ks srcs b d req resp Confirmed = Inr (b, [])"
proof (cases "findCall (calls b) d")
  case None
  then show ?thesis by (simp add: InviteStateHandler_def)
next
  case (Some c)
  from findCall_Some[OF Some] assms have "dest c \<noteq> d" by auto
  with Some show ?thesis by (simp add: InviteStateHandler_def)
qed

lemma confirmed_found_dest:
  assumes "findCall (calls b) d = Some c" and "dest c = d"
  shows "InviteStateHandler e ks srcs b d req resp Confirmed =
           Inr (b, [SessProvideAnswer (src c) (RemoteSdp e d), SessAccept (src c) 200])"
  using assms by (auto simp: InviteStateHandler_def)

lemma confirmed_noop_iff:
  assumes "\<forall>c\<in>set (calls b). src c \<noteq> d"
  shows "InviteStateHandler e ks srcs b d req resp Confirmed = Inr (b, []) \<longleftrightarrow>
           (\<forall>c\<in>set (calls b). dest c \<noteq> d)"
proof
  assume noop: "InviteStateHandler e ks srcs b d req resp Confirmed = Inr (b, [])"
  show "\<forall>c\<in>set (calls b). dest c \<noteq> d"
  proof (rule ccontr)
    assume "\<not> (\<forall>c\<in>set (calls b). dest c \<noteq> d)"
    then have "findCall (calls b) d \<noteq> None" by (auto simp: findCall_None)
    then obtain c where c: "findCall (calls b) d = Some c" by auto
    from findCall_Some[OF c] assms have "dest c = d" by auto
    from confirmed_found_dest[OF c this, of e ks srcs req resp] noop show False by simp
  qed
next
  assume "\<forall>c\<in>set (calls b). dest c \<noteq> d"
  then show "InviteStateHandler e ks srcs b d req resp Confirmed = Inr (b, [])"
    by (rule confirmed_no_dest)
qed

lemma invite_each_empty: "invite_each e sess req Map.empty srcs st = st"
  by (induction srcs) auto

subsection \<open>Unregistering an AOR that no key matches\<close>

text \<open>
  For a request with no Expires header or with the expiry 0, with a User-Agent header,
  and with no key of the registry having the user part of the addressed AOR,
  \<open>handleRegister\<close> answers 200 and leaves the registry as it is: \<open>RemoveContact\<close>
  returns the error of the lookup and the handler drops it.
\<close>

lemma handleRegister_unregister_unknown:
  assumes "reg_Expires request = [] \<or> hd (reg_Expires request) = 0"
      and "reg_UserAgent request \<noteq> []"
      and "range_keys (registry b) ks"
      and "\<forall>key\<in>dom (registry b). User key \<noteq> User (reg_To request)"
  shows "handleRegister ks ks' b request =
           Inr (b, \<lparr>resp_Status = 200, resp_Reason = ''UnRegistered'',
                    resp_Expires = reg_Expires request\<rparr>)"
proof -
  have "set ks \<subseteq> dom (registry b)" using assms(3) by (simp add: range_keys_def)
  moreover have "find (\<lambda>key. User key = User (reg_To request)) ks = None"
    using assms(3,4) by (auto simp: find_None_iff range_keys_def)
  ultimately have f: "findInstances (registry b) ks (reg_To request) = Inl (NotFound (reg_To request))"
    by (simp add: findInstances_find)
  obtain u us where u: "reg_UserAgent request = u # us"
    using assms(2) by (cases "reg_UserAgent request") auto
  from assms(1) show ?thesis
    by (cases "reg_Expires request")
       (simp_all add: handleRegister_def NewContactInstanceForRequest_def u RemoveContact_def f)
qed

section \<open>The claims\<close>

subsection \<open>C1: no entry without instances\<close>

text \<open>
  Claim C1 says that after every sequence of registry operations from the empty
  registry every entry has at least one instance. The source does not keep this: after
  \<open>AddAor(sip:100@a, i)\<close> and \<open>RemoveContact(sip:100@b, i)\<close>, with \<open>i\<close> from source
  \<open>A\<close>, the registry is reachable and holds the entry \<open>sip:100@a\<close> with the empty
  instance map.
\<close>

theorem RemoveContact_leaves_empty_entry:
  "RemoveContact [Uri ''100'' ''a''] [Uri ''100'' ''a''] (Uri ''100'' ''b'') (ex_instance ''A'')
     (snd (AddAor [] (Uri ''100'' ''a'') (ex_instance ''A'') Map.empty)) =
     (None, [Uri ''100'' ''a'' \<mapsto> Map.empty]) \<and>
   reachable [Uri ''100'' ''a'' \<mapsto> Map.empty]"
  using reachable_empty_entry
  by (simp add: AddAor_def RemoveContact_def Equals_def ex_instance_def)

subsection \<open>C2: loss of a connection\<close>

text \<open>
  Claim C2 says that one call of \<open>HandleConnectionError\<close> removes every instance of the
  lost source in all entries, and that a second call removes nothing and returns false.
  The source leaves the outer loop at the first entry it has emptied. With \<open>sip:100@x\<close>
  and \<open>sip:200@x\<close> both registered from source \<open>A\<close>, the first call removes one entry
  and keeps the other with its instance of \<open>A\<close>, in either order of the visit, and the
  second call removes that one and returns true.
\<close>

theorem HandleConnectionError_stops_at_first_emptied_entry:
  "range_view ex_two_aors [(Uri ''100'' ''x'', [''A'']), (Uri ''200'' ''x'', [''A''])] \<and>
   range_view ex_two_aors [(Uri ''200'' ''x'', [''A'']), (Uri ''100'' ''x'', [''A''])] \<and>
   HandleConnectionError [(Uri ''100'' ''x'', [''A'']), (Uri ''200'' ''x'', [''A''])] ex_lost ex_two_aors =
     (True, [Uri ''200'' ''x'' \<mapsto> [''A'' \<mapsto> ex_instance ''A'']]) \<and>
   HandleConnectionError [(Uri ''200'' ''x'', [''A'']), (Uri ''100'' ''x'', [''A''])] ex_lost ex_two_aors =
     (True, [Uri ''100'' ''x'' \<mapsto> [''A'' \<mapsto> ex_instance ''A'']]) \<and>
   HandleConnectionError [(Uri ''200'' ''x'', [''A''])] ex_lost
     [Uri ''200'' ''x'' \<mapsto> [''A'' \<mapsto> ex_instance ''A'']] = (True, Map.empty) \<and>
   HandleConnectionError [(Uri ''100'' ''x'', [''A''])] ex_lost
     [Uri ''100'' ''x'' \<mapsto> [''A'' \<mapsto> ex_instance ''A'']] = (True, Map.empty)"
proof -
  have v1: "range_view ex_two_aors [(Uri ''100'' ''x'', [''A'']), (Uri ''200'' ''x'', [''A''])]"
    unfolding ex_two_aors_eq by (auto simp: range_view_def range_keys_def)
  have v2: "range_view ex_two_aors [(Uri ''200'' ''x'', [''A'']), (Uri ''100'' ''x'', [''A''])]"
    unfolding ex_two_aors_eq by (auto simp: range_view_def range_keys_def)
  show ?thesis
    using v1 v2
    by (simp add: ex_two_aors_eq HandleConnectionError_def ex_lost_def fun_upd_twist)
qed

subsection \<open>C3: the entry that \<open>AddAor\<close> writes to\<close>

text \<open>
  Claim C3 says that \<open>AddAor\<close> matches the existing entry by the full URI. The source
  looks the entry up with \<open>findInstances\<close>, by user part. With \<open>sip:100@a\<close> registered
  from \<open>A\<close>, adding \<open>sip:100@b\<close> from \<open>B\<close> makes no entry for \<open>sip:100@b\<close>, although
  no key equals it; the instance goes into the entry of \<open>sip:100@a\<close>.
\<close>

theorem AddAor_full_uri_key_counterexample:
  "\<not> Equals (Uri ''100'' ''a'') (Uri ''100'' ''b'') \<and>
   snd (AddAor [Uri ''100'' ''a''] (Uri ''100'' ''b'') (ex_instance ''B'')
          [Uri ''100'' ''a'' \<mapsto> [''A'' \<mapsto> ex_instance ''A'']]) (Uri ''100'' ''b'') = None \<and>
   snd (AddAor [Uri ''100'' ''a''] (Uri ''100'' ''b'') (ex_instance ''B'')
          [Uri ''100'' ''a'' \<mapsto> [''A'' \<mapsto> ex_instance ''A'']]) (Uri ''100'' ''a'') =
     Some [''A'' \<mapsto> ex_instance ''A'', ''B'' \<mapsto> ex_instance ''B'']"
  by (simp add: AddAor_def Equals_def ex_instance_def)

text \<open>
  Claim C3 as amended: \<open>AddAor\<close> never fails. If some key of the registry has the user
  part of \<open>aor\<close>, the instance is stored under its source address in the entry of the
  first such key in the order of the visit, whatever the domain of that key, and no
  entry is made; otherwise a new entry with the key \<open>aor\<close> is made that holds only this
  instance.
\<close>

theorem AddAor_matches_by_user_part:
  assumes "range_keys aors ks"
  shows "fst (AddAor ks aor instance aors) = None \<and>
     (if \<exists>key\<in>dom aors. User key = User aor
      then \<exists>key instances.
             find (\<lambda>k. User k = User aor) ks = Some key \<and> aors key = Some instances \<and>
             snd (AddAor ks aor instance aors) =
               aors(key \<mapsto> instances(Source instance \<mapsto> instance))
      else snd (AddAor ks aor instance aors) = aors(aor \<mapsto> [Source instance \<mapsto> instance]))"
proof -
  have sub: "set ks \<subseteq> dom aors" and eq: "set ks = dom aors"
    using assms by (simp_all add: range_keys_def)
  show ?thesis
  proof (cases "find (\<lambda>k. User k = User aor) ks")
    case None
    then have "\<forall>key\<in>dom aors. User key \<noteq> User aor"
      using eq by (auto simp: find_None_iff)
    then show ?thesis
      using None by (simp add: AddAor_def findInstances_find[OF sub])
  next
    case (Some key)
    then have k: "key \<in> set ks" "User key = User aor"
      by (auto simp: find_Some_iff)
    then obtain instances where i: "aors key = Some instances" using eq by auto
    have "\<exists>key\<in>dom aors. User key = User aor" using k eq by auto
    then show ?thesis
      using Some i by (simp add: AddAor_def findInstances_find[OF sub])
  qed
qed

theorem AddAor_matches_by_user_part_witness:
  "range_keys [Uri ''100'' ''a'' \<mapsto> [''A'' \<mapsto> ex_instance ''A'']] [Uri ''100'' ''a''] \<and>
   snd (AddAor [Uri ''100'' ''a''] (Uri ''100'' ''b'') (ex_instance ''B'')
          [Uri ''100'' ''a'' \<mapsto> [''A'' \<mapsto> ex_instance ''A'']]) =
     [Uri ''100'' ''a'' \<mapsto> [''A'' \<mapsto> ex_instance ''A'', ''B'' \<mapsto> ex_instance ''B'']]"
proof -
  have h: "range_keys [Uri ''100'' ''a'' \<mapsto> [''A'' \<mapsto> ex_instance ''A'']] [Uri ''100'' ''a'']"
    by (simp add: range_keys_def)
  show ?thesis
    using h AddAor_matches_by_user_part[OF h, of "Uri ''100'' ''b''" "ex_instance ''B''"]
    by (simp add: ex_instance_def)
qed

subsection \<open>C4: a terminal event on a leg of an active call\<close>

text \<open>
  Claim C4: on \<open>Failure\<close>, \<open>Canceled\<close> or \<open>Terminated\<close> for a session, if the session
  is a leg of a call of the active list, the engine ends the other leg of the first such
  call and takes that call out of the list; if the session is a leg of no call, nothing
  is ended and the list is as before.
\<close>

theorem terminal_event_ends_other_leg:
  assumes "state = Failure \<or> state = Canceled \<or> state = Terminated"
  shows "InviteStateHandler e ks srcs b sess req resp state =
           (case findCall (calls b) sess of
              None \<Rightarrow> Inr (b, [])
            | Some call \<Rightarrow> Inr (b\<lparr>calls := remove1 call (calls b)\<rparr>,
                               [SessEnd (if src call = sess then dest call else src call)]))
         \<and> (findCall (calls b) sess = None \<longleftrightarrow>
              (\<forall>call\<in>set (calls b). src call \<noteq> sess \<and> dest call \<noteq> sess))
         \<and> (\<forall>call. findCall (calls b) sess = Some call \<longrightarrow>
              call \<in> set (calls b) \<and> (src call = sess \<or> dest call = sess))"
proof -
  have "InviteStateHandler e ks srcs b sess req resp state = on_terminal b sess"
    using assms by (auto simp: InviteStateHandler_def)
  then show ?thesis
    using findCall_None[of "calls b" sess] findCall_Some[of "calls b" sess]
    by (simp only: on_terminal_eq) blast
qed

theorem terminal_event_ends_other_leg_witness:
  "InviteStateHandler ex_env [] [] ex_forked 2 None None Failure =
     Inr (ex_forked\<lparr>calls := [\<lparr>src = 1, dest = 3\<rparr>]\<rparr>, [SessEnd 1]) \<and>
   InviteStateHandler ex_env [] [] ex_forked 7 None None Failure = Inr (ex_forked, [])"
  using terminal_event_ends_other_leg[of Failure ex_env "[]" "[]" ex_forked 2 None None]
        terminal_event_ends_other_leg[of Failure ex_env "[]" "[]" ex_forked 7 None None]
  by (simp add: ex_forked_def)

subsection \<open>C5: an INVITE to an AOR with two contacts\<close>

text \<open>
  Claim C5 says that, after an INVITE forked to two contacts and the \<open>Confirmed\<close> of the
  first B-leg, a later \<open>Confirmed\<close> of the second B-leg does nothing. The handler of
  \<open>Confirmed\<close> takes no call out of the list, so the call of the second B-leg is still
  there: with the A-leg 1 and the B-legs 2 and 3, \<open>Confirmed\<close> on 3 after \<open>Confirmed\<close>
  on 2 gives the description of 3 to the A-leg as answer and accepts the A-leg again.
\<close>

theorem second_confirmed_answers_again_counterexample:
  "InviteStateHandler ex_env [Uri ''200'' ''x''] [''A'', ''B''] ex_idle 1 (Some ex_invite) None
     InviteReceived =
     Inr (ex_forked,
          [SessProvisional 1 100 ''Trying'',
           UaInvite \<lparr>profile_URI = Uri ''100'' ''x'', profile_DisplayName = []\<rparr> (Uri ''200'' ''x'')
             ''sip:200@A;transport=udp'' ''sdp'',
           UaInvite \<lparr>profile_URI = Uri ''100'' ''x'', profile_DisplayName = []\<rparr> (Uri ''200'' ''x'')
             ''sip:200@B;transport=udp'' ''sdp'']) \<and>
   InviteStateHandler ex_env [] [] ex_forked 2 None None Confirmed =
     Inr (ex_forked, [SessProvideAnswer 1 ''sdp2'', SessAccept 1 200]) \<and>
   InviteStateHandler ex_env [] [] ex_forked 3 None None Confirmed =
     Inr (ex_forked, [SessProvideAnswer 1 ''sdp3'', SessAccept 1 200]) \<and>
   InviteStateHandler ex_env [] [] ex_forked 3 None None Confirmed \<noteq> Inr (ex_forked, [])"
  by (simp add: InviteStateHandler_def GetContacts_def doInvite_def Let_def ex_env_def ex_idle_def
      ex_forked_def ex_invite_def ex_instance_def)

text \<open>
  Claim C5 as amended. Let the lookup of the called AOR find exactly two contact
  instances, let both calls of \<open>ua.Invite\<close> succeed with the sessions \<open>d1\<close> and \<open>d2\<close>,
  different from each other, \<open>d2\<close> different from the A-leg, and neither a leg of a call
  already in the list. Then the engine sends 100 Trying on the A-leg, originates two
  sessions and appends two calls that share the A-leg. \<open>Confirmed\<close> on the first B-leg
  gives its description to the A-leg as answer and accepts the A-leg with 200, and
  leaves the list as it is. A later \<open>Confirmed\<close> on the second B-leg answers and accepts
  the A-leg again in every engine where the lookup of that session returns its call:
  right after the first \<open>Confirmed\<close>, and also after the call of the first B-leg has
  been taken out of the list. In an engine where the second B-leg is the source of no
  call, \<open>Confirmed\<close> on it does nothing if and only if no call of the list has it as
  destination.
\<close>

theorem forked_invite_then_confirmed:
  assumes "GetContacts ks (To_Address req) (registry b) = (Some cts, True)"
      and "range_keys cts [s1, s2]" and "cts s1 = Some i1" and "cts s2 = Some i2"
      and "Invite_result e 0 = Inr d1" and "Invite_result e 1 = Inr d2"
      and "d1 \<noteq> d2" and "a \<noteq> d2"
      and "\<forall>c\<in>set (calls b). src c \<noteq> d1 \<and> dest c \<noteq> d1 \<and> src c \<noteq> d2 \<and> dest c \<noteq> d2"
      and "b1 = b\<lparr>calls := calls b @ [\<lparr>src = a, dest = d1\<rparr>, \<lparr>src = a, dest = d2\<rparr>]\<rparr>"
  shows "(\<exists>p r1 r2. InviteStateHandler e ks [s1, s2] b a (Some req) resp InviteReceived =
            Inr (b1, [SessProvisional a 100 ''Trying'',
                      UaInvite p (To_Address req) r1 (RemoteSdp e a),
                      UaInvite p (To_Address req) r2 (RemoteSdp e a)]))
       \<and> InviteStateHandler e1 ks1 srcs1 b1 d1 req1 resp1 Confirmed =
            Inr (b1, [SessProvideAnswer a (RemoteSdp e1 d1), SessAccept a 200])
       \<and> InviteStateHandler e2 ks2 srcs2 b1 d2 req2 resp2 Confirmed =
            Inr (b1, [SessProvideAnswer a (RemoteSdp e2 d2), SessAccept a 200])
       \<and> InviteStateHandler e2 ks2 srcs2 (b\<lparr>calls := calls b @ [\<lparr>src = a, dest = d2\<rparr>]\<rparr>) d2
            req2 resp2 Confirmed =
            Inr (b\<lparr>calls := calls b @ [\<lparr>src = a, dest = d2\<rparr>]\<rparr>,
                 [SessProvideAnswer a (RemoteSdp e2 d2), SessAccept a 200])
       \<and> (\<forall>b2. findCall (calls b2) d2 = Some \<lparr>src = a, dest = d2\<rparr> \<longrightarrow>
              InviteStateHandler e2 ks2 srcs2 b2 d2 req2 resp2 Confirmed =
                Inr (b2, [SessProvideAnswer a (RemoteSdp e2 d2), SessAccept a 200]))
       \<and> (\<forall>b2. (\<forall>c\<in>set (calls b2). src c \<noteq> d2) \<longrightarrow>
              (InviteStateHandler e2 ks2 srcs2 b2 d2 req2 resp2 Confirmed = Inr (b2, []) \<longleftrightarrow>
               (\<forall>c\<in>set (calls b2). dest c \<noteq> d2)))"
proof -
  have inv: "\<exists>p r1 r2. InviteStateHandler e ks [s1, s2] b a (Some req) resp InviteReceived =
            Inr (b1, [SessProvisional a 100 ''Trying'',
                      UaInvite p (To_Address req) r1 (RemoteSdp e a),
                      UaInvite p (To_Address req) r2 (RemoteSdp e a)])"
    using assms(1,3,4,5,6,10)
    by (simp add: InviteStateHandler_def doInvite_def Let_def)
  have pre1: "\<forall>c\<in>set (calls b). src c \<noteq> d1 \<and> dest c \<noteq> d1"
    and pre2: "\<forall>c\<in>set (calls b). src c \<noteq> d2 \<and> dest c \<noteq> d2"
    using assms(9) by auto
  have f1: "findCall (calls b1) d1 = Some \<lparr>src = a, dest = d1\<rparr>"
    using assms(10) by (simp add: findCall_append[OF pre1])
  have f2: "findCall (calls b1) d2 = Some \<lparr>src = a, dest = d2\<rparr>"
    using assms(7,8,10) by (simp add: findCall_append[OF pre2])
  have f3: "findCall (calls (b\<lparr>calls := calls b @ [\<lparr>src = a, dest = d2\<rparr>]\<rparr>)) d2 =
              Some \<lparr>src = a, dest = d2\<rparr>"
    by (simp add: findCall_append[OF pre2])
  have again: "\<forall>b2. findCall (calls b2) d2 = Some \<lparr>src = a, dest = d2\<rparr> \<longrightarrow>
              InviteStateHandler e2 ks2 srcs2 b2 d2 req2 resp2 Confirmed =
                Inr (b2, [SessProvideAnswer a (RemoteSdp e2 d2), SessAccept a 200])"
    using confirmed_dest by blast
  have noop: "\<forall>b2. (\<forall>c\<in>set (calls b2). src c \<noteq> d2) \<longrightarrow>
              (InviteStateHandler e2 ks2 srcs2 b2 d2 req2 resp2 Confirmed = Inr (b2, []) \<longleftrightarrow>
               (\<forall>c\<in>set (calls b2). dest c \<noteq> d2))"
    using confirmed_noop_iff by blast
  from inv confirmed_dest[OF f1] confirmed_dest[OF f2] confirmed_dest[OF f3] again noop
  show ?thesis by (intro conjI)
qed

theorem forked_invite_then_confirmed_witness:
  "GetContacts [Uri ''200'' ''x''] (To_Address ex_invite) (registry ex_idle) =
     (Some [''A'' \<mapsto> ex_instance ''A'', ''B'' \<mapsto> ex_instance ''B''], True) \<and>
   range_keys [''A'' \<mapsto> ex_instance ''A'', ''B'' \<mapsto> ex_instance ''B''] [''A'', ''B''] \<and>
   InviteStateHandler ex_env [] [] ex_forked 2 None None Confirmed =
     Inr (ex_forked, [SessProvideAnswer 1 ''sdp2'', SessAccept 1 200]) \<and>
   InviteStateHandler ex_env [] [] ex_forked 3 None None Confirmed =
     Inr (ex_forked, [SessProvideAnswer 1 ''sdp3'', SessAccept 1 200]) \<and>
   InviteStateHandler ex_env [] [] (ex_idle\<lparr>calls := [\<lparr>src = 1, dest = 3\<rparr>]\<rparr>) 3 None None
     Confirmed =
     Inr (ex_idle\<lparr>calls := [\<lparr>src = 1, dest = 3\<rparr>]\<rparr>,
          [SessProvideAnswer 1 ''sdp3'', SessAccept 1 200]) \<and>
   InviteStateHandler ex_env [] [] ex_idle 3 None None Confirmed = Inr (ex_idle, []) \<and>
   InviteStateHandler ex_env [] [] (ex_idle\<lparr>calls := [\<lparr>src = 1, dest = 2\<rparr>]\<rparr>) 3 None None
     Confirmed = Inr (ex_idle\<lparr>calls := [\<lparr>src = 1, dest = 2\<rparr>]\<rparr>, [])"
proof -
  let ?cts = "[''A'' \<mapsto> ex_instance ''A'', ''B'' \<mapsto> ex_instance ''B'']"
  have h1: "GetContacts [Uri ''200'' ''x''] (To_Address ex_invite) (registry ex_idle) = (Some ?cts, True)"
    by (simp add: GetContacts_def ex_invite_def ex_idle_def)
  have h2: "range_keys ?cts [''A'', ''B'']" by (auto simp: range_keys_def)
  have h3: "?cts ''A'' = Some (ex_instance ''A'')" by simp
  have h4: "?cts ''B'' = Some (ex_instance ''B'')" by simp
  have h5: "Invite_result ex_env 0 = Inr 2" by (simp add: ex_env_def)
  have h6: "Invite_result ex_env 1 = Inr 3" by (simp add: ex_env_def)
  have h7: "(2::nat) \<noteq> 3" by simp
  have h8: "(1::nat) \<noteq> 3" by simp
  have h9: "\<forall>c\<in>set (calls ex_idle). src c \<noteq> 2 \<and> dest c \<noteq> 2 \<and> src c \<noteq> 3 \<and> dest c \<noteq> 3"
    by (simp add: ex_idle_def)
  have h10: "ex_forked = ex_idle\<lparr>calls := calls ex_idle @ [\<lparr>src = 1, dest = 2\<rparr>, \<lparr>src = 1, dest = 3\<rparr>]\<rparr>"
    by (simp add: ex_forked_def ex_idle_def)
  note t = forked_invite_then_confirmed[OF h1 h2 h3 h4 h5 h6 h7 h8 h9 h10,
      of None ex_env "[]" "[]" None None ex_env "[]" "[]" None None]
  have c2: "InviteStateHandler ex_env [] [] ex_forked 2 None None Confirmed =
     Inr (ex_forked, [SessProvideAnswer 1 ''sdp2'', SessAccept 1 200])"
    using t by (simp add: ex_env_def)
  have c3: "InviteStateHandler ex_env [] [] ex_forked 3 None None Confirmed =
     Inr (ex_forked, [SessProvideAnswer 1 ''sdp3'', SessAccept 1 200])"
    using t by (simp add: ex_env_def)
  have c4: "InviteStateHandler ex_env [] [] (ex_idle\<lparr>calls := [\<lparr>src = 1, dest = 3\<rparr>]\<rparr>) 3 None None
     Confirmed =
     Inr (ex_idle\<lparr>calls := [\<lparr>src = 1, dest = 3\<rparr>]\<rparr>,
          [SessProvideAnswer 1 ''sdp3'', SessAccept 1 200])"
    using t by (simp add: ex_env_def ex_idle_def)
  have n: "\<forall>b2. (\<forall>c\<in>set (calls b2). src c \<noteq> 3) \<longrightarrow>
              (InviteStateHandler ex_env [] [] b2 3 None None Confirmed = Inr (b2, []) \<longleftrightarrow>
               (\<forall>c\<in>set (calls b2). dest c \<noteq> 3))"
    using t by blast
  have c5: "InviteStateHandler ex_env [] [] ex_idle 3 None None Confirmed = Inr (ex_idle, [])"
    using n[rule_format, of ex_idle] by (simp add: ex_idle_def)
  have c6: "InviteStateHandler ex_env [] [] (ex_idle\<lparr>calls := [\<lparr>src = 1, dest = 2\<rparr>]\<rparr>) 3 None None
     Confirmed = Inr (ex_idle\<lparr>calls := [\<lparr>src = 1, dest = 2\<rparr>]\<rparr>, [])"
    using n[rule_format, of "ex_idle\<lparr>calls := [\<lparr>src = 1, dest = 2\<rparr>]\<rparr>"] by simp
  from h1 h2 c2 c3 c4 c5 c6 show ?thesis by (intro conjI)
qed

subsection \<open>C6: an INVITE to an AOR that is not registered\<close>

text \<open>
  Claim C6: on \<open>InviteReceived\<close> for a request whose called AOR \<open>GetContacts\<close> does not
  find, the engine rejects the A-leg with 404 and the reason "... Not found", calls
  \<open>ua.Invite\<close> for no contact, and leaves the list of active calls as it is.
\<close>

theorem invite_unknown_aor_rejected:
  assumes "\<not> snd (GetContacts ks (To_Address req) (registry b))"
  shows "InviteStateHandler e ks srcs b sess (Some req) resp InviteReceived =
           Inr (b, [SessReject sess 404 (uri_String (To_Address req) @ '' Not found'')])"
  using assms
  by (cases "GetContacts ks (To_Address req) (registry b)") (simp add: InviteStateHandler_def)

theorem invite_unknown_aor_rejected_witness:
  "\<not> snd (GetContacts [Uri ''200'' ''x'']
          (To_Address (ex_invite\<lparr>To_Address := Uri ''300'' ''x''\<rparr>)) (registry ex_idle)) \<and>
   InviteStateHandler ex_env [Uri ''200'' ''x''] [] ex_idle 1
     (Some (ex_invite\<lparr>To_Address := Uri ''300'' ''x''\<rparr>)) None InviteReceived =
     Inr (ex_idle, [SessReject 1 404 ''sip:300@x Not found''])"
proof -
  have h: "\<not> snd (GetContacts [Uri ''200'' ''x'']
          (To_Address (ex_invite\<lparr>To_Address := Uri ''300'' ''x''\<rparr>)) (registry ex_idle))"
    by (simp add: GetContacts_def ex_idle_def)
  from invite_unknown_aor_rejected[OF h, of ex_env "[]" 1 None] h show ?thesis
    by (simp add: uri_String_def)
qed

subsection \<open>C7: unregistering an AOR that is not registered\<close>

text \<open>
  Claim C7 says that every registration request with the expiry 0, or with no Expires
  header, for an AOR with no entry is answered with 200. \<open>handleRegister\<close> builds the
  contact instance first, and \<open>NewContactInstanceForRequest\<close> indexes the list of
  User-Agent headers at 0 without a test of its length. For a request without a
  User-Agent header to an empty registry the handler panics and sends no response, with
  no Expires header as with the expiry 0.
\<close>

theorem handleRegister_without_user_agent_panics:
  "handleRegister [] [] \<lparr>registry = Map.empty, calls = []\<rparr>
     \<lparr>reg_To = Uri ''100'' ''x'', reg_Expires = [], reg_UserAgent = [],
      reg_Contact = Some ''sip:100@10.0.0.1'', reg_Source = ''10.0.0.1:5060'',
      reg_Transport = ''udp''\<rparr> = Inl IndexOutOfRange \<and>
   handleRegister [] [] \<lparr>registry = Map.empty, calls = []\<rparr>
     \<lparr>reg_To = Uri ''100'' ''x'', reg_Expires = [0], reg_UserAgent = [],
      reg_Contact = Some ''sip:100@10.0.0.1'', reg_Source = ''10.0.0.1:5060'',
      reg_Transport = ''udp''\<rparr> = Inl IndexOutOfRange"
  by (simp add: handleRegister_def NewContactInstanceForRequest_def)

subsection \<open>C9: a terminal event on an A-leg that several calls share\<close>

text \<open>
  Claim C9: let the session \<open>a\<close> be the A-leg of the call \<open>call\<close> of the list, and a
  leg of no call before it. On \<open>Failure\<close>, \<open>Canceled\<close> or \<open>Terminated\<close> for \<open>a\<close> the
  engine ends the B-leg of \<open>call\<close> and nothing else, and takes \<open>call\<close> and nothing
  else out of the list: every call after it, the other calls with the A-leg \<open>a\<close>
  among them, stays in the list and its B-leg is not ended.
\<close>

theorem terminal_on_shared_a_leg_first_call_only:
  assumes "state = Failure \<or> state = Canceled \<or> state = Terminated"
      and "calls b = pre @ call # post"
      and "\<forall>c\<in>set pre. src c \<noteq> a \<and> dest c \<noteq> a"
      and "src call = a"
  shows "InviteStateHandler e ks srcs b a req resp state =
           Inr (b\<lparr>calls := pre @ post\<rparr>, [SessEnd (dest call)])"
proof -
  have h: "InviteStateHandler e ks srcs b a req resp state = on_terminal b a"
    using assms(1) by (auto simp: InviteStateHandler_def)
  have f: "findCall (calls b) a = Some call"
    using assms(2-4) by (simp add: findCall_append)
  have r: "removeCall (calls b) a = pre @ post"
    using assms(2-4) by (simp add: removeCall_append)
  show ?thesis unfolding h using f r assms(4) by (simp add: on_terminal_def)
qed

theorem terminal_on_shared_a_leg_first_call_only_witness:
  "calls ex_forked = [] @ \<lparr>src = 1, dest = 2\<rparr> # [\<lparr>src = 1, dest = 3\<rparr>] \<and>
   InviteStateHandler ex_env [] [] ex_forked 1 None None Terminated =
     Inr (ex_forked\<lparr>calls := [\<lparr>src = 1, dest = 3\<rparr>]\<rparr>, [SessEnd 2])"
proof -
  have h: "calls ex_forked = [] @ \<lparr>src = 1, dest = 2\<rparr> # [\<lparr>src = 1, dest = 3\<rparr>]"
    by (simp add: ex_forked_def)
  from terminal_on_shared_a_leg_first_call_only[of Terminated ex_forked "[]"
          "\<lparr>src = 1, dest = 2\<rparr>" "[\<lparr>src = 1, dest = 3\<rparr>]" 1
          ex_env "[]" "[]" None None, OF _ h]
  show ?thesis using h by simp
qed

subsection \<open>C10: an INVITE to an entry without instances\<close>

text \<open>
  Claim C10: in a reachable registry with an entry whose instance map is empty,
  \<open>GetContacts\<close> for an AOR with the user part of that entry's key reports found, with
  no instance; on \<open>InviteReceived\<close> for a request to that AOR the engine sends 100
  Trying on the A-leg and does nothing else: no \<open>ua.Invite\<close>, no new call, no 404.
\<close>

theorem invite_to_empty_entry_only_trying:
  assumes "reachable (registry b)" and "range_keys (registry b) ks"
      and "registry b key = Some Map.empty" and "User aor = User key"
      and "To_Address req = aor"
  shows "GetContacts ks aor (registry b) = (Some Map.empty, True) \<and>
         InviteStateHandler e ks srcs b sess (Some req) resp InviteReceived =
           Inr (b, [SessProvisional sess 100 ''Trying''])"
proof -
  have "findInstances (registry b) ks aor = Inr (key, Map.empty)"
    using assms by (intro findInstances_unique reachable_unique_users) (simp_all add: range_keys_def)
  then have g: "GetContacts ks aor (registry b) = (Some Map.empty, True)"
    by (simp add: GetContacts_def)
  then show ?thesis using assms(5)
    by (simp add: InviteStateHandler_def invite_each_empty)
qed

theorem invite_to_empty_entry_only_trying_witness:
  "reachable [Uri ''100'' ''a'' \<mapsto> Map.empty] \<and>
   GetContacts [Uri ''100'' ''a''] (Uri ''100'' ''b'') [Uri ''100'' ''a'' \<mapsto> Map.empty] =
     (Some Map.empty, True) \<and>
   InviteStateHandler ex_env [Uri ''100'' ''a''] []
     \<lparr>registry = [Uri ''100'' ''a'' \<mapsto> Map.empty], calls = []\<rparr> 1
     (Some (ex_invite\<lparr>To_Address := Uri ''100'' ''b''\<rparr>)) None InviteReceived =
     Inr (\<lparr>registry = [Uri ''100'' ''a'' \<mapsto> Map.empty], calls = []\<rparr>,
          [SessProvisional 1 100 ''Trying''])"
proof -
  let ?b = "\<lparr>registry = [Uri ''100'' ''a'' \<mapsto> Map.empty], calls = []\<rparr>"
  have h1: "reachable (registry ?b)" using reachable_empty_entry by simp
  have h2: "range_keys (registry ?b) [Uri ''100'' ''a'']" by (simp add: range_keys_def)
  have h3: "registry ?b (Uri ''100'' ''a'') = Some Map.empty" by simp
  have h4: "User (Uri ''100'' ''b'') = User (Uri ''100'' ''a'')" by simp
  have h5: "To_Address (ex_invite\<lparr>To_Address := Uri ''100'' ''b''\<rparr>) = Uri ''100'' ''b''" by simp
  from invite_to_empty_entry_only_trying[OF h1 h2 h3 h4 h5, of ex_env "[]" 1 None] h1
  show ?thesis by simp
qed

end
